theory Spec2Isabelle
  imports Complex_Main "HOL-Library.Word"
begin

unbundle bit_operations_syntax

section \<open>The usbtiny programmer driver (usbtiny.c)\<close>

text \<open>
  A shallow embedding of the driver for the "usbtiny" programmer. The driver keeps its
  session in file-level static variables; here they are the fields of the record
  \<open>driver\<close>, which every operation takes and returns. The USB adapter is the
  environment: each call of \<open>usb_control_msg\<close> is recorded in a trace, and the number
  of bytes moved (with the bytes received) is supplied by the field \<open>adapter\<close>, an
  arbitrary function of the position of the exchange in the trace and of the request.
  Diagnostics (\<open>printf\<close>, \<open>fprintf\<close>), \<open>usleep\<close> and \<open>report_progress\<close>
  do not touch the driver's variables and are left out, and so are the functions that find,
  open and close the device (\<open>usbtiny_open\<close>, \<open>usbtiny_close\<close>,
  \<open>usbtiny_powerdown\<close>).
\<close>

subsection \<open>Constants and data\<close>

type_synonym byte_t = "8 word"

datatype usb_request =
    USBTINY_ECHO
  | USBTINY_READ
  | USBTINY_WRITE
  | USBTINY_CLR
  | USBTINY_SET
  | USBTINY_POWERUP
  | USBTINY_POWERDOWN
  | USBTINY_SPI
  | USBTINY_POLL_BYTES
  | USBTINY_FLASH_READ
  | USBTINY_FLASH_WRITE
  | USBTINY_EEPROM_READ
  | USBTINY_EEPROM_WRITE

definition RESET_LOW :: int where "RESET_LOW = 0"
definition RESET_HIGH :: int where "RESET_HIGH = 1"
definition SCK_MIN :: int where "SCK_MIN = 1"
definition SCK_MAX :: int where "SCK_MAX = 250"
definition SCK_DEFAULT :: int where "SCK_DEFAULT = 10"
definition CHUNK_SIZE :: int where "CHUNK_SIZE = 128"
definition USB_TIMEOUT :: int where "USB_TIMEOUT = 500"

text \<open>
  One entry of the trace: a \<open>usb_control\<close> notification (request, value, index), an
  inbound exchange (request, value, index, buffer length, timeout, bytes moved), an outbound
  exchange (request, value, index, payload, buffer length, timeout, bytes moved), or a call
  of the external \<open>avr_write_page\<close> with its address argument.
\<close>

datatype event =
    Control usb_request int int
  | In usb_request int int int int int
  | Out usb_request int int "byte_t list" int int int
  | WritePage int

type_synonym adapter_t = "nat \<Rightarrow> usb_request \<Rightarrow> int \<Rightarrow> int \<Rightarrow> int \<Rightarrow> int \<times> byte_t list"

text \<open>
  The static variables. \<open>cache_mem\<close> is a pointer to a memory descriptor: \<open>None\<close> is
  \<open>NULL\<close>, \<open>Some a\<close> the descriptor at address \<open>a\<close>. \<open>cache_base\<close> and the byte
  addresses are \<open>ulong_t\<close> in the source; they are non-negative integers here, and the
  bitwise operations on \<open>int\<close> agree with the machine's on such values.
\<close>

record driver =
  sck_period :: int
  chunk_size :: int
  cache_mem :: "nat option"
  cache_base :: int
  cache_buf :: "byte_t list"
  cache_disable :: int
  trace :: "event list"
  adapter :: adapter_t

text \<open>
  The memory descriptor \<open>AVRMEM\<close> (declared in a header outside this file): the fields the
  driver reads, and \<open>mem_addr\<close>, the address of the descriptor, which is all that the
  pointer comparison \<open>cache_mem != m\<close> looks at.
\<close>

record AVRMEM =
  mem_addr :: nat
  mem_desc :: string
  mem_paged :: bool
  mem_size :: int
  mem_readback0 :: byte_t
  mem_readback1 :: byte_t
  mem_max_write_delay :: int
  mem_buf :: "byte_t list"

datatype avr_op = AVR_OP_PGM_ENABLE | AVR_OP_CHIP_ERASE | AVR_OP_OTHER nat

text \<open>
  The part descriptor: \<open>part_op\<close> is the table \<open>p->op[]\<close> of bit templates, \<open>None\<close>
  for a null entry. The type of a template is a parameter.
\<close>

record 'o AVRPART =
  part_op :: "avr_op \<Rightarrow> 'o option"
  chip_erase_delay :: int

text \<open>
  The programmer descriptor. \<open>bitclock\<close> is a \<open>double\<close> in the source; the driver only
  tests \<open>pgm->bitclock > 0.0\<close> and converts \<open>(int) (v * 1e6 + 0.5)\<close>. The two results
  are the fields here, the floating-point arithmetic itself is not modelled.
\<close>

record PROGRAMMER =
  bitclock_gt0 :: bool
  bitclock_usec :: int

text \<open>A buffer of exactly four bytes (\<open>byte_t cmd[4]\<close>, \<open>byte_t res[4]\<close>).\<close>

datatype buf4 = Buf4 (b0: byte_t) (b1: byte_t) (b2: byte_t) (b3: byte_t)

definition list_of_buf4 :: "buf4 \<Rightarrow> byte_t list" where
  "list_of_buf4 b = [b0 b, b1 b, b2 b, b3 b]"

text \<open>
  Writing bytes into a buffer from an offset on. A write past the end of the buffer
  (undefined in C) is dropped, the buffer keeps its length.
\<close>

fun store_bytes :: "byte_t list \<Rightarrow> nat \<Rightarrow> byte_t list \<Rightarrow> byte_t list" where
  "store_bytes buf off [] = buf"
| "store_bytes buf off (x # xs) = store_bytes (buf[off := x]) (Suc off) xs"

definition store_buf4 :: "buf4 \<Rightarrow> byte_t list \<Rightarrow> buf4" where
  "store_buf4 b xs =
     (let l = store_bytes (list_of_buf4 b) 0 xs in Buf4 (l ! 0) (l ! 1) (l ! 2) (l ! 3))"

text \<open>Integer division of C (towards zero), for a positive divisor.\<close>

definition c_div :: "int \<Rightarrow> int \<Rightarrow> int" where
  "c_div a b = (if 0 \<le> a then a div b else - ((- a) div b))"

subsection \<open>The transport\<close>

definition usb_control :: "usb_request \<Rightarrow> int \<Rightarrow> int \<Rightarrow> driver \<Rightarrow> driver" where
  "usb_control req val index s = s\<lparr>trace := trace s @ [Control req val index]\<rparr>"

text \<open>
  \<open>usb_in\<close> returns its status and the bytes that arrived in the caller's buffer (never
  more than \<open>buflen\<close>); the caller stores them.
\<close>

definition usb_in ::
  "usb_request \<Rightarrow> int \<Rightarrow> int \<Rightarrow> int \<Rightarrow> int \<Rightarrow> driver \<Rightarrow> (int \<times> byte_t list) \<times> driver" where
  "usb_in req val index buflen umax s =
     (let timeout = USB_TIMEOUT + c_div (buflen * umax) 1000;
          (n, data) = adapter s (length (trace s)) req val index buflen;
          got = take (nat (min n buflen)) data;
          s' = s\<lparr>trace := trace s @ [In req val index buflen timeout n]\<rparr>
      in if n \<noteq> buflen then ((- 1, got), s') else ((0, got), s'))"

definition usb_out ::
  "usb_request \<Rightarrow> int \<Rightarrow> int \<Rightarrow> byte_t list \<Rightarrow> int \<Rightarrow> int \<Rightarrow> driver \<Rightarrow> int \<times> driver" where
  "usb_out req val index buf buflen umax s =
     (let timeout = USB_TIMEOUT + c_div (buflen * umax) 1000;
          n = fst (adapter s (length (trace s)) req val index buflen);
          s' = s\<lparr>trace := trace s @ [Out req val index buf buflen timeout n]\<rparr>
      in if n \<noteq> buflen then (- 1, s') else (0, s'))"

subsection \<open>Clock period and chunk size\<close>

text \<open>
  The loop of \<open>usbtiny_set_chunk_size\<close>. Both operands of \<open>>>=\<close> are positive inside
  the loop, where the shift is a division by two.
\<close>

function chunk_loop :: "int \<Rightarrow> int \<Rightarrow> int" where
  "chunk_loop cs period =
     (if cs > 8 \<and> period > 16 then chunk_loop (drop_bit 1 cs) (drop_bit 1 period) else cs)"
  by pat_completeness auto
termination
  by (relation "measure (\<lambda>(cs, period). nat cs)") (auto simp: drop_bit_eq_div)

declare chunk_loop.simps [simp del]

definition usbtiny_set_chunk_size :: "int \<Rightarrow> driver \<Rightarrow> driver" where
  "usbtiny_set_chunk_size period s = s\<lparr>chunk_size := chunk_loop CHUNK_SIZE period\<rparr>"

text \<open>
  \<open>usbtiny_set_sck_period\<close>, from the converted value \<open>(int) (v * 1e6 + 0.5)\<close> on.
\<close>

definition usbtiny_set_sck_period :: "int \<Rightarrow> driver \<Rightarrow> int \<times> driver" where
  "usbtiny_set_sck_period v_usec s =
     (let p0 = v_usec;
          p1 = (if p0 < SCK_MIN then SCK_MIN else p0);
          p2 = (if p1 > SCK_MAX then SCK_MAX else p1);
          s1 = s\<lparr>sck_period := p2\<rparr>;
          s2 = usb_control USBTINY_POWERUP (sck_period s1) RESET_LOW s1
      in (0, usbtiny_set_chunk_size (sck_period s2) s2))"

subsection \<open>The command relay\<close>

text \<open>
  \<open>usbtiny_cmd\<close>. Its parameter \<open>res\<close> is declared \<open>byte_t res[4]\<close>, which in a
  parameter list is a pointer, so \<open>sizeof(res)\<close> is the size of a pointer on the
  platform the driver is compiled for: 4 where pointers have 32 bits, 8 where they have 64.
  That size is the parameter \<open>sizeof_res\<close>. \<open>res\<close> is the caller's buffer as it is
  found, and the buffer as it is left is returned with the status.
\<close>

definition usbtiny_cmd :: "int \<Rightarrow> buf4 \<Rightarrow> buf4 \<Rightarrow> driver \<Rightarrow> (int \<times> buf4) \<times> driver" where
  "usbtiny_cmd sizeof_res cmd res s =
     (let s0 = s\<lparr>cache_mem := None\<rparr>;
          res0 = store_buf4 res (replicate (nat sizeof_res) 0);
          r = usb_in USBTINY_SPI
                (push_bit 8 (uint (b1 cmd)) OR uint (b0 cmd))
                (push_bit 8 (uint (b3 cmd)) OR uint (b2 cmd))
                sizeof_res (8 * sck_period s0) s0;
          res1 = store_buf4 res0 (snd (fst r))
      in ((if fst (fst r) = 0 \<and> b2 res1 = b1 cmd then 1 else 0, res1), snd r))"

text \<open>
  \<open>usbtiny_avr_op\<close>. \<open>avr_set_bits\<close> is defined outside this file and is a parameter;
  \<open>pgm->cmd\<close> is \<open>usbtiny_cmd\<close>, as \<open>usbtiny_initpgm\<close> sets it.
\<close>

definition usbtiny_avr_op ::
  "('o \<Rightarrow> buf4 \<Rightarrow> buf4) \<Rightarrow> int \<Rightarrow> 'o AVRPART \<Rightarrow> avr_op \<Rightarrow> buf4 \<Rightarrow> driver
     \<Rightarrow> (int \<times> buf4) \<times> driver" where
  "usbtiny_avr_op avr_set_bits sizeof_res p op res s =
     (case part_op p op of
        None \<Rightarrow> ((- 1, res), s)
      | Some t \<Rightarrow>
          (let cmd = avr_set_bits t (Buf4 0 0 0 0)
           in usbtiny_cmd sizeof_res cmd res s))"

subsection \<open>Initialization and chip erase\<close>

text \<open>\<open>res\<close> is the content of the uninitialised local array.\<close>

definition usbtiny_initialize ::
  "('o \<Rightarrow> buf4 \<Rightarrow> buf4) \<Rightarrow> int \<Rightarrow> PROGRAMMER \<Rightarrow> 'o AVRPART \<Rightarrow> buf4 \<Rightarrow> driver
     \<Rightarrow> int \<times> driver" where
  "usbtiny_initialize avr_set_bits sizeof_res pgm p res s =
     (let s1 = (if bitclock_gt0 pgm
                then snd (usbtiny_set_sck_period (bitclock_usec pgm) s)
                else (let t1 = s\<lparr>sck_period := SCK_DEFAULT\<rparr>;
                          t2 = usb_control USBTINY_POWERUP (sck_period t1) RESET_LOW t1
                      in usbtiny_set_chunk_size (sck_period t2) t2));
          r1 = usbtiny_avr_op avr_set_bits sizeof_res p AVR_OP_PGM_ENABLE res s1
      in if fst (fst r1) = 0
         then (let s2 = snd r1;
                   s3 = usb_control USBTINY_POWERUP (sck_period s2) RESET_HIGH s2;
                   s4 = usb_control USBTINY_POWERUP (sck_period s3) RESET_LOW s3;
                   r2 = usbtiny_avr_op avr_set_bits sizeof_res p AVR_OP_PGM_ENABLE
                          (snd (fst r1)) s4
               in if fst (fst r2) = 0 then (- 1, snd r2) else (0, snd r2))
         else (0, snd r1))"

definition usbtiny_chip_erase ::
  "('o \<Rightarrow> buf4 \<Rightarrow> buf4) \<Rightarrow> int \<Rightarrow> PROGRAMMER \<Rightarrow> 'o AVRPART \<Rightarrow> buf4 \<Rightarrow> buf4 \<Rightarrow> driver
     \<Rightarrow> int \<times> driver" where
  "usbtiny_chip_erase avr_set_bits sizeof_res pgm p res res_init s =
     (let r = usbtiny_avr_op avr_set_bits sizeof_res p AVR_OP_CHIP_ERASE res s;
          s1 = usb_control USBTINY_POWERUP (sck_period (snd r)) RESET_HIGH (snd r);
          s2 = snd (usbtiny_initialize avr_set_bits sizeof_res pgm p res_init s1)
      in (fst (fst r), s2))"

subsection \<open>Paged read and write\<close>

text \<open>
  One pass through the body of the loop of \<open>usbtiny_paged_load\<close> at offset \<open>i\<close>:
  the length of the chunk, and the exchange that stores what arrives at \<open>m->buf + i\<close>.
  The status of \<open>usb_in\<close> is not looked at.
\<close>

definition load_chunk :: "int \<Rightarrow> int \<Rightarrow> driver \<Rightarrow> int" where
  "load_chunk n_bytes i s =
     (let chunk = chunk_size s
      in if chunk > n_bytes - i then n_bytes - i else chunk)"

definition load_step :: "usb_request \<Rightarrow> int \<Rightarrow> int \<Rightarrow> AVRMEM \<Rightarrow> driver \<Rightarrow> AVRMEM \<times> driver" where
  "load_step req n_bytes i m s =
     (let chunk = load_chunk n_bytes i s;
          r = usb_in req 0 i chunk (32 * sck_period s) s
      in (m\<lparr>mem_buf := store_bytes (mem_buf m) (nat i) (snd (fst r))\<rparr>, snd r))"

text \<open>
  The loop, from offset \<open>i\<close> on. The source's loop does not end when the chunk is not
  positive; \<open>None\<close> stands for a loop that does not return.
\<close>

partial_function (option) paged_load_loop ::
  "usb_request \<Rightarrow> int \<Rightarrow> int \<Rightarrow> AVRMEM \<Rightarrow> driver \<Rightarrow> (AVRMEM \<times> driver) option" where
  "paged_load_loop req n_bytes i m s =
     (if i < n_bytes
      then paged_load_loop req n_bytes (i + load_chunk n_bytes i s)
             (fst (load_step req n_bytes i m s)) (snd (load_step req n_bytes i m s))
      else Some (m, s))"

declare paged_load_loop.simps [code]

definition usbtiny_paged_load ::
  "AVRMEM \<Rightarrow> int \<Rightarrow> int \<Rightarrow> driver \<Rightarrow> (int \<times> AVRMEM \<times> driver) option" where
  "usbtiny_paged_load m page_size n_bytes s =
     (let req = (if mem_desc m = ''flash'' then USBTINY_FLASH_READ else USBTINY_EEPROM_READ)
      in case paged_load_loop req n_bytes 0 m s of
           None \<Rightarrow> None
         | Some (m', s') \<Rightarrow> Some (n_bytes, m', s'))"

text \<open>
  Modelled from the spec: \<open>avr_write_page\<close>, the external "commit page" step, which is
  defined outside this file. The call and its address argument are recorded; what the step
  does to the device is not part of the driver.
\<close>

definition avr_write_page :: "int \<Rightarrow> driver \<Rightarrow> driver" where
  "avr_write_page addr s = s\<lparr>trace := trace s @ [WritePage addr]\<rparr>"

text \<open>
  One pass through the body of the loop of \<open>usbtiny_paged_write\<close> at offset \<open>i\<close>:
  the length of the chunk, and the exchange followed by the page commit. The status of
  \<open>usb_out\<close> is not looked at.
\<close>

definition write_chunk :: "AVRMEM \<Rightarrow> int \<Rightarrow> int \<Rightarrow> int \<Rightarrow> driver \<Rightarrow> int" where
  "write_chunk m page_size n_bytes i s =
     (let chunk0 = chunk_size s;
          chunk1 = (if mem_paged m \<and> chunk0 > page_size then page_size else chunk0)
      in if chunk1 > n_bytes - i then n_bytes - i else chunk1)"

definition write_step ::
  "usb_request \<Rightarrow> int \<Rightarrow> AVRMEM \<Rightarrow> int \<Rightarrow> int \<Rightarrow> int \<Rightarrow> driver \<Rightarrow> driver" where
  "write_step req delay m page_size n_bytes i s =
     (let chunk = write_chunk m page_size n_bytes i s;
          s1 = snd (usb_out req delay i (take (nat chunk) (drop (nat i) (mem_buf m)))
                      chunk (32 * sck_period s + delay) s);
          next = i + chunk
      in if mem_paged m \<and> (next mod page_size = 0 \<or> next = n_bytes)
         then avr_write_page i s1 else s1)"

text \<open>
  The loop, from offset \<open>i\<close> on. The remainder \<open>next % page_size\<close> is only compared
  with zero, where C and HOL agree for a divisor other than zero; with \<open>page_size = 0\<close>
  on a paged memory the C program traps in the division, which is \<open>None\<close> as well.
\<close>

partial_function (option) paged_write_loop ::
  "usb_request \<Rightarrow> int \<Rightarrow> AVRMEM \<Rightarrow> int \<Rightarrow> int \<Rightarrow> int \<Rightarrow> driver \<Rightarrow> driver option" where
  "paged_write_loop req delay m page_size n_bytes i s =
     (if i < n_bytes
      then (if mem_paged m \<and> page_size = 0 then None
            else paged_write_loop req delay m page_size n_bytes
                   (i + write_chunk m page_size n_bytes i s)
                   (write_step req delay m page_size n_bytes i s))
      else Some s)"

declare paged_write_loop.simps [code]

definition usbtiny_paged_write ::
  "AVRMEM \<Rightarrow> int \<Rightarrow> int \<Rightarrow> driver \<Rightarrow> (int \<times> driver) option" where
  "usbtiny_paged_write m page_size n_bytes s =
     (let req = (if mem_desc m = ''flash'' then USBTINY_FLASH_WRITE else USBTINY_EEPROM_WRITE);
          s0 = (if \<not> mem_paged m
                then usb_control USBTINY_POLL_BYTES
                       (push_bit 8 (uint (mem_readback1 m)) OR uint (mem_readback0 m)) 0 s
                else s);
          delay = (if \<not> mem_paged m then mem_max_write_delay m else 0)
      in case paged_write_loop req delay m page_size n_bytes 0 s0 of
           None \<Rightarrow> None
         | Some s' \<Rightarrow> Some (n_bytes, s'))"

subsection \<open>Single bytes and the cache\<close>

text \<open>
  The byte \<open>cache_buf[i]\<close>; \<open>None\<close> where the index is outside the buffer.
\<close>

definition load_byte :: "byte_t list \<Rightarrow> int \<Rightarrow> byte_t option" where
  "load_byte xs i = (if 0 \<le> i \<and> i < int (length xs) then Some (xs ! nat i) else None)"

text \<open>
  \<open>usbtiny_read_byte\<close> returns its status and the byte stored in \<open>*value\<close>
  (\<open>None\<close> when nothing is stored). The external \<open>avr_read_byte_default\<close> is a
  parameter.
\<close>

definition usbtiny_read_byte ::
  "(AVRMEM \<Rightarrow> int \<Rightarrow> driver \<Rightarrow> (int \<times> byte_t option) \<times> driver) \<Rightarrow> AVRMEM \<Rightarrow> int \<Rightarrow> driver
     \<Rightarrow> (int \<times> byte_t option) \<times> driver" where
  "usbtiny_read_byte avr_read_byte_default m addr s =
     (if cache_disable s > 0 then avr_read_byte_default m addr s
      else if mem_desc m \<noteq> ''flash'' \<and> mem_desc m \<noteq> ''eeprom''
      then avr_read_byte_default m addr s
      else
        (let base = addr AND NOT (chunk_size s - 1)
         in if cache_mem s \<noteq> Some (mem_addr m) \<or> cache_base s \<noteq> base
            then
              (let req = (if mem_desc m = ''flash''
                          then USBTINY_FLASH_READ else USBTINY_EEPROM_READ);
                   size = (if mem_size m < chunk_size s then mem_size m else chunk_size s);
                   r = usb_in req 0 base size (32 * sck_period s) s;
                   s1 = (snd r)\<lparr>cache_buf := store_bytes (cache_buf s) 0 (snd (fst r))\<rparr>
               in if fst (fst r) \<noteq> 0
                  then ((- 1, None), s1\<lparr>cache_mem := None\<rparr>)
                  else (let s2 = s1\<lparr>cache_mem := Some (mem_addr m), cache_base := base\<rparr>
                        in ((0, load_byte (cache_buf s2) (addr - base)), s2)))
            else ((0, load_byte (cache_buf s) (addr - base)), s)))"

definition usbtiny_write_byte ::
  "(AVRMEM \<Rightarrow> int \<Rightarrow> byte_t \<Rightarrow> driver \<Rightarrow> int \<times> driver) \<Rightarrow> AVRMEM \<Rightarrow> int \<Rightarrow> byte_t \<Rightarrow> driver
     \<Rightarrow> int \<times> driver" where
  "usbtiny_write_byte avr_write_byte_default m addr v s =
     (let s1 = s\<lparr>cache_disable := cache_disable s + 1\<rparr>;
          r = avr_write_byte_default m addr v s1;
          s2 = (snd r)\<lparr>cache_disable := cache_disable (snd r) - 1\<rparr>
      in (fst r, s2))"

subsection \<open>Reading the trace\<close>

text \<open>
  The length asked for and the number of bytes moved in one exchange, and their sums over
  a trace.
\<close>

fun xfer_len :: "event \<Rightarrow> int" where
  "xfer_len (In req val index buflen timeout n) = buflen"
| "xfer_len (Out req val index buf buflen timeout n) = buflen"
| "xfer_len (Control req val index) = 0"
| "xfer_len (WritePage a) = 0"

fun xfer_moved :: "event \<Rightarrow> int" where
  "xfer_moved (In req val index buflen timeout n) = n"
| "xfer_moved (Out req val index buf buflen timeout n) = n"
| "xfer_moved (Control req val index) = 0"
| "xfer_moved (WritePage a) = 0"

definition total_len :: "event list \<Rightarrow> int" where
  "total_len es = sum_list (map xfer_len es)"

definition total_moved :: "event list \<Rightarrow> int" where
  "total_moved es = sum_list (map xfer_moved es)"

text \<open>The data exchanges of a trace, each with its offset and its length.\<close>

fun chunk_of :: "event \<Rightarrow> (int \<times> int) list" where
  "chunk_of (In req val index buflen timeout n) = [(index, buflen)]"
| "chunk_of (Out req val index buf buflen timeout n) = [(index, buflen)]"
| "chunk_of (Control req val index) = []"
| "chunk_of (WritePage a) = []"

definition chunks :: "event list \<Rightarrow> (int \<times> int) list" where
  "chunks es = concat (map chunk_of es)"

text \<open>The page commits of a trace, and how many there are.\<close>

fun commit_of :: "event \<Rightarrow> int list" where
  "commit_of (WritePage a) = [a]"
| "commit_of (In req val index buflen timeout n) = []"
| "commit_of (Out req val index buf buflen timeout n) = []"
| "commit_of (Control req val index) = []"

definition commits :: "event list \<Rightarrow> int list" where
  "commits es = concat (map commit_of es)"

definition commit_count :: "event list \<Rightarrow> nat" where
  "commit_count es = length (commits es)"

text \<open>The inbound exchanges that read flash or eeprom, and the SPI commands.\<close>

fun is_read :: "event \<Rightarrow> bool" where
  "is_read (In req val index buflen timeout n) =
     (req = USBTINY_FLASH_READ \<or> req = USBTINY_EEPROM_READ)"
| "is_read (Out req val index buf buflen timeout n) = False"
| "is_read (Control req val index) = False"
| "is_read (WritePage a) = False"

definition read_count :: "event list \<Rightarrow> nat" where
  "read_count es = length (filter is_read es)"

fun is_spi :: "event \<Rightarrow> bool" where
  "is_spi (In req val index buflen timeout n) = (req = USBTINY_SPI)"
| "is_spi (Out req val index buf buflen timeout n) = (req = USBTINY_SPI)"
| "is_spi (Control req val index) = (req = USBTINY_SPI)"
| "is_spi (WritePage a) = False"

definition spi_count :: "event list \<Rightarrow> nat" where
  "spi_count es = length (filter is_spi es)"

text \<open>An adapter that completes every exchange.\<close>

definition complete_adapter :: "driver \<Rightarrow> bool" where
  "complete_adapter s = (\<forall>k req val index len. fst (adapter s k req val index len) = len)"

text \<open>Whether a memory is of a kind the cache serves.\<close>

definition cacheable :: "AVRMEM \<Rightarrow> bool" where
  "cacheable m = (mem_desc m = ''flash'' \<or> mem_desc m = ''eeprom'')"

text \<open>The chunk-aligned base of an address, as \<open>usbtiny_read_byte\<close> computes it.\<close>

definition base_of :: "driver \<Rightarrow> int \<Rightarrow> int" where
  "base_of s addr = addr AND NOT (chunk_size s - 1)"

text \<open>
  What a refill of the cache asks the adapter for, the number of bytes the adapter moves in
  answer, and whether the cache holds the chunk of an address.
\<close>

definition refill_req :: "AVRMEM \<Rightarrow> usb_request" where
  "refill_req m = (if mem_desc m = ''flash'' then USBTINY_FLASH_READ else USBTINY_EEPROM_READ)"

definition refill_size :: "driver \<Rightarrow> AVRMEM \<Rightarrow> int" where
  "refill_size s m = (if mem_size m < chunk_size s then mem_size m else chunk_size s)"

definition refill_moved :: "driver \<Rightarrow> AVRMEM \<Rightarrow> int \<Rightarrow> int" where
  "refill_moved s m addr =
     fst (adapter s (length (trace s)) (refill_req m) 0 (base_of s addr) (refill_size s m))"

definition cache_holds :: "driver \<Rightarrow> AVRMEM \<Rightarrow> int \<Rightarrow> bool" where
  "cache_holds s m addr = (cache_mem s = Some (mem_addr m) \<and> cache_base s = base_of s addr)"

text \<open>The ceiling of a quotient of integers.\<close>

definition ceil_div :: "int \<Rightarrow> int \<Rightarrow> int" where
  "ceil_div n p = \<lceil>real_of_int n / real_of_int p\<rceil>"

subsection \<open>Sample sessions\<close>

text \<open>
  An adapter that moves what it is asked for, the static variables as the program starts
  with them, and a session at a given clock period and chunk size.
\<close>

definition ideal_adapter :: adapter_t where
  "ideal_adapter k req val index len = (len, replicate (nat len) 0)"

definition driver_start :: "adapter_t \<Rightarrow> driver" where
  "driver_start ad =
     \<lparr>sck_period = 0, chunk_size = 0, cache_mem = None, cache_base = 0,
      cache_buf = replicate 128 0, cache_disable = 0, trace = [], adapter = ad\<rparr>"

definition session :: "adapter_t \<Rightarrow> int \<Rightarrow> int \<Rightarrow> driver" where
  "session ad period chunk = (driver_start ad)\<lparr>sck_period := period, chunk_size := chunk\<rparr>"

definition flash_mem :: "nat \<Rightarrow> AVRMEM" where
  "flash_mem len =
     \<lparr>mem_addr = 1, mem_desc = ''flash'', mem_paged = True, mem_size = int len,
      mem_readback0 = 255, mem_readback1 = 255, mem_max_write_delay = 4500,
      mem_buf = replicate len 0\<rparr>"

definition eeprom_mem :: "nat \<Rightarrow> AVRMEM" where
  "eeprom_mem len =
     \<lparr>mem_addr = 2, mem_desc = ''eeprom'', mem_paged = False, mem_size = int len,
      mem_readback0 = 255, mem_readback1 = 255, mem_max_write_delay = 9000,
      mem_buf = replicate len 0\<rparr>"

text \<open>An adapter whose first exchange moves five bytes, whatever is asked for.\<close>

definition short_adapter :: adapter_t where
  "short_adapter k req val index len =
     (if k = 0 then (5, replicate 5 0) else (len, replicate (nat len) 0))"

text \<open>
  A part whose only template is the programming-enable command \<open>AC 53 00 00\<close>, a
  part with no template at all, a stand-in for \<open>avr_set_bits\<close> on templates that fix
  all 32 bits, and an adapter that answers every exchange with the four bytes
  \<open>00 AC 53 00\<close>.
\<close>

definition set_all_bits :: "buf4 \<Rightarrow> buf4 \<Rightarrow> buf4" where
  "set_all_bits t cmd = t"

definition enable_part :: "buf4 AVRPART" where
  "enable_part =
     \<lparr>part_op = (\<lambda>op. if op = AVR_OP_PGM_ENABLE then Some (Buf4 172 83 0 0) else None),
      chip_erase_delay = 9000\<rparr>"

definition bare_part :: "buf4 AVRPART" where
  "bare_part = \<lparr>part_op = (\<lambda>op. None), chip_erase_delay = 9000\<rparr>"

definition echo_adapter :: adapter_t where
  "echo_adapter k req val index len = (4, [0, 172, 83, 0])"

text \<open>
  A programmer without the \<open>-B\<close> option, a default byte read that always fails, and
  a session whose cache holds the first chunk of the memory at address 1.
\<close>

definition default_pgm :: PROGRAMMER where
  "default_pgm = \<lparr>bitclock_gt0 = False, bitclock_usec = 0\<rparr>"

definition no_default :: "AVRMEM \<Rightarrow> int \<Rightarrow> driver \<Rightarrow> (int \<times> byte_t option) \<times> driver" where
  "no_default m addr s = ((- 1, None), s)"

definition warm_session :: driver where
  "warm_session = (session ideal_adapter 10 128)\<lparr>cache_mem := Some 1, cache_base := 0\<rparr>"

section \<open>Properties\<close>

subsection \<open>The chunk size\<close>

lemma chunk_loop_closed:
  "chunk_loop CHUNK_SIZE p =
     (if p \<le> 16 then 128 else if p \<le> 33 then 64 else if p \<le> 67 then 32
      else if p \<le> 135 then 16 else 8)"
proof -
  have d: "drop_bit (Suc 0) x = x div 2" for x :: int
    by (simp add: drop_bit_eq_div)
  have e8: "chunk_loop 8 q = 8" for q
    by (simp add: chunk_loop.simps)
  have e16: "chunk_loop 16 q = (if q > 16 then 8 else 16)" for q
    by (subst chunk_loop.simps) (simp add: d e8)
  have e32: "chunk_loop 32 q = (if q > 33 then 8 else if q > 16 then 16 else 32)" for q
    by (subst chunk_loop.simps) (simp add: d e16; arith)
  have e64: "chunk_loop 64 q =
      (if q > 67 then 8 else if q > 33 then 16 else if q > 16 then 32 else 64)" for q
    by (subst chunk_loop.simps) (simp add: d e32; arith)
  show ?thesis
    unfolding CHUNK_SIZE_def
    by (subst chunk_loop.simps) (simp add: d e64; arith)
qed

lemma set_chunk_size_closed:
  "chunk_size (usbtiny_set_chunk_size p s) =
     (if p \<le> 16 then 128 else if p \<le> 33 then 64 else if p \<le> 67 then 32
      else if p \<le> 135 then 16 else 8)"
  by (simp add: usbtiny_set_chunk_size_def chunk_loop_closed)

lemma set_chunk_size_pow2: "\<exists>k. chunk_size (usbtiny_set_chunk_size p s) = 2 ^ k"
proof -
  have "(128::int) = 2 ^ 7" "(64::int) = 2 ^ 6" "(32::int) = 2 ^ 5"
    "(16::int) = 2 ^ 4" "(8::int) = 2 ^ 3"
    by simp_all
  then show ?thesis
    unfolding set_chunk_size_closed by (metis (full_types))
qed

text \<open>
  C5. For every clock period from 1 to 250 the chunk size that
  \<open>usbtiny_set_chunk_size\<close> derives is a power of two between 8 and 128, and a longer
  period never gives a larger chunk; period 10 gives 128 and period 200 gives 8.
\<close>

theorem C5_chunk_size:
  assumes "1 \<le> p" and "p \<le> 250" and "1 \<le> q" and "q \<le> 250" and "p \<le> q"
  shows "(\<exists>k. chunk_size (usbtiny_set_chunk_size p s) = 2 ^ k)
       \<and> 8 \<le> chunk_size (usbtiny_set_chunk_size p s)
       \<and> chunk_size (usbtiny_set_chunk_size p s) \<le> 128
       \<and> chunk_size (usbtiny_set_chunk_size q s) \<le> chunk_size (usbtiny_set_chunk_size p s)
       \<and> chunk_size (usbtiny_set_chunk_size 10 s) = 128
       \<and> chunk_size (usbtiny_set_chunk_size 200 s) = 8"
proof -
  have "chunk_size (usbtiny_set_chunk_size q s) \<le> chunk_size (usbtiny_set_chunk_size p s)"
    using assms(5) by (simp add: set_chunk_size_closed)
  then show ?thesis
    using set_chunk_size_pow2 [of p s] by (simp add: set_chunk_size_closed)
qed

theorem C5_chunk_size_witness:
  "(1::int) \<le> 17 \<and> (17::int) \<le> 250 \<and> (1::int) \<le> 200 \<and> (200::int) \<le> 250 \<and> (17::int) \<le> 200
   \<and> (\<exists>k. chunk_size (usbtiny_set_chunk_size 17 (driver_start ideal_adapter)) = 2 ^ k)
   \<and> chunk_size (usbtiny_set_chunk_size 17 (driver_start ideal_adapter)) = 64
   \<and> chunk_size (usbtiny_set_chunk_size 200 (driver_start ideal_adapter))
        \<le> chunk_size (usbtiny_set_chunk_size 17 (driver_start ideal_adapter))"
  using C5_chunk_size [of 17 200 "driver_start ideal_adapter"]
  by (simp add: set_chunk_size_closed)

subsection \<open>The clock period\<close>

text \<open>
  From the converted value on, \<open>usbtiny_set_sck_period\<close> clamps the period into the
  range from \<open>SCK_MIN\<close> to \<open>SCK_MAX\<close> and derives the chunk size from it.
\<close>

lemma set_sck_period_clamp:
  "sck_period (snd (usbtiny_set_sck_period v s)) = max 1 (min 250 v)"
  "chunk_size (snd (usbtiny_set_sck_period v s)) = chunk_loop CHUNK_SIZE (max 1 (min 250 v))"
  "fst (usbtiny_set_sck_period v s) = 0"
  by (simp_all add: usbtiny_set_sck_period_def usbtiny_set_chunk_size_def usb_control_def
      Let_def SCK_MIN_def SCK_MAX_def)

subsection \<open>Fields and traces after the transport operations\<close>

lemma usb_control_fields [simp]:
  "chunk_size (usb_control req val index s) = chunk_size s"
  "sck_period (usb_control req val index s) = sck_period s"
  "adapter (usb_control req val index s) = adapter s"
  "cache_mem (usb_control req val index s) = cache_mem s"
  "cache_base (usb_control req val index s) = cache_base s"
  "cache_disable (usb_control req val index s) = cache_disable s"
  "trace (usb_control req val index s) = trace s @ [Control req val index]"
  by (simp_all add: usb_control_def)

lemma usb_out_fields [simp]:
  "chunk_size (snd (usb_out req val index buf buflen umax s)) = chunk_size s"
  "sck_period (snd (usb_out req val index buf buflen umax s)) = sck_period s"
  "adapter (snd (usb_out req val index buf buflen umax s)) = adapter s"
  by (simp_all add: usb_out_def Let_def)

lemma usb_out_trace:
  "trace (snd (usb_out req val index buf buflen umax s)) =
     trace s @ [Out req val index buf buflen (USB_TIMEOUT + c_div (buflen * umax) 1000)
                  (fst (adapter s (length (trace s)) req val index buflen))]"
  by (simp add: usb_out_def Let_def)

lemma usb_in_fields [simp]:
  "chunk_size (snd (usb_in req val index buflen umax s)) = chunk_size s"
  "sck_period (snd (usb_in req val index buflen umax s)) = sck_period s"
  "adapter (snd (usb_in req val index buflen umax s)) = adapter s"
  "cache_mem (snd (usb_in req val index buflen umax s)) = cache_mem s"
  "cache_base (snd (usb_in req val index buflen umax s)) = cache_base s"
  "cache_disable (snd (usb_in req val index buflen umax s)) = cache_disable s"
  by (simp_all add: usb_in_def Let_def split: prod.split)

lemma usb_in_trace:
  "trace (snd (usb_in req val index buflen umax s)) =
     trace s @ [In req val index buflen (USB_TIMEOUT + c_div (buflen * umax) 1000)
                  (fst (adapter s (length (trace s)) req val index buflen))]"
  by (simp add: usb_in_def Let_def split: prod.split)

lemma usb_in_status:
  "fst (fst (usb_in req val index buflen umax s)) =
     (if fst (adapter s (length (trace s)) req val index buflen) = buflen then 0 else - 1)"
  by (simp add: usb_in_def Let_def split: prod.split)

lemma avr_write_page_fields [simp]:
  "chunk_size (avr_write_page a s) = chunk_size s"
  "sck_period (avr_write_page a s) = sck_period s"
  "adapter (avr_write_page a s) = adapter s"
  "trace (avr_write_page a s) = trace s @ [WritePage a]"
  by (simp_all add: avr_write_page_def)

lemma measures_append [simp]:
  "total_len (xs @ ys) = total_len xs + total_len ys"
  "total_moved (xs @ ys) = total_moved xs + total_moved ys"
  "chunks (xs @ ys) = chunks xs @ chunks ys"
  "commits (xs @ ys) = commits xs @ commits ys"
  "commit_count (xs @ ys) = commit_count xs + commit_count ys"
  "read_count (xs @ ys) = read_count xs + read_count ys"
  "spi_count (xs @ ys) = spi_count xs + spi_count ys"
  by (simp_all add: total_len_def total_moved_def chunks_def commits_def commit_count_def
      read_count_def spi_count_def)

lemma measures_Cons [simp]:
  "total_len (e # es) = xfer_len e + total_len es"
  "total_moved (e # es) = xfer_moved e + total_moved es"
  "chunks (e # es) = chunk_of e @ chunks es"
  "commits (e # es) = commit_of e @ commits es"
  "commit_count (e # es) = length (commit_of e) + commit_count es"
  "read_count (e # es) = (if is_read e then 1 else 0) + read_count es"
  "spi_count (e # es) = (if is_spi e then 1 else 0) + spi_count es"
  by (simp_all add: total_len_def total_moved_def chunks_def commits_def commit_count_def
      read_count_def spi_count_def)

lemma measures_Nil [simp]:
  "total_len [] = 0" "total_moved [] = 0" "chunks [] = []" "commits [] = []"
  "commit_count [] = 0" "read_count [] = 0" "spi_count [] = 0"
  by (simp_all add: total_len_def total_moved_def chunks_def commits_def commit_count_def
      read_count_def spi_count_def)

text \<open>The sample sessions and memories.\<close>

lemma session_fields [simp]:
  "chunk_size (session ad p c) = c" "sck_period (session ad p c) = p"
  "trace (session ad p c) = []" "adapter (session ad p c) = ad"
  "cache_mem (session ad p c) = None" "cache_disable (session ad p c) = 0"
  "cache_base (session ad p c) = 0"
  by (simp_all add: session_def driver_start_def)

lemma sample_mem_fields [simp]:
  "mem_paged (flash_mem n)" "mem_desc (flash_mem n) = ''flash''"
  "mem_addr (flash_mem n) = 1" "mem_size (flash_mem n) = int n"
  "\<not> mem_paged (eeprom_mem n)" "mem_desc (eeprom_mem n) = ''eeprom''"
  "mem_addr (eeprom_mem n) = 2" "mem_size (eeprom_mem n) = int n"
  by (simp_all add: flash_mem_def eeprom_mem_def)

lemma complete_ideal [simp]: "complete_adapter (session ideal_adapter p c)"
  by (simp add: complete_adapter_def ideal_adapter_def)

subsection \<open>Arithmetic of pages\<close>

lemma mod_room:
  fixes c p i :: int
  assumes "0 < c" "c dvd p" "c dvd i" "0 < p"
  shows "i mod p + c \<le> p"
proof -
  have "c dvd (p - i mod p)" using assms by (simp add: dvd_mod)
  moreover have "0 < p - i mod p" using assms by simp
  ultimately have "c \<le> p - i mod p" by (rule zdvd_imp_le)
  then show ?thesis by simp
qed

lemma div_step:
  fixes c p i :: int
  assumes "0 < p" "0 < c" "i mod p + c \<le> p"
  shows "(i + c) div p = i div p + (if (i + c) mod p = 0 then 1 else 0)"
proof (cases "i mod p + c = p")
  case True
  have e: "i + c = p * (i div p + 1) + 0"
    using True by (simp add: algebra_simps) (metis add.assoc add.commute mult_div_mod_eq)
  have "(i + c) div p = i div p + 1"
    by (rule int_div_pos_eq [OF e]) (use assms in simp_all)
  moreover have "(i + c) mod p = 0"
    by (rule int_mod_pos_eq [OF e]) (use assms in simp_all)
  ultimately show ?thesis by simp
next
  case False
  have r: "0 \<le> i mod p" using assms by simp
  have e: "i + c = p * (i div p) + (i mod p + c)"
    by simp
  have "(i + c) div p = i div p"
    by (rule int_div_pos_eq [OF e]) (use assms False r in simp_all)
  moreover have "(i + c) mod p = i mod p + c"
    by (rule int_mod_pos_eq [OF e]) (use assms False r in simp_all)
  moreover have "0 < i mod p + c" using r assms(2) by linarith
  ultimately show ?thesis by simp
qed

lemma ceil_last:
  fixes c p i n :: int
  assumes "0 < p" "0 < c" "i mod p + c \<le> p" "i < n" "n \<le> i + c"
  shows "- ((- n) div p) = i div p + 1"
proof -
  have i: "i = p * (i div p) + i mod p" by simp
  have r: "0 \<le> i mod p" using assms by simp
  define t where "t = p * (i div p + 1) - n"
  have e: "- n = p * (- (i div p + 1)) + t" by (simp add: t_def algebra_simps)
  have "p * (i div p + 1) = i - i mod p + p" 
    by (simp add: algebra_simps)
  then have t: "t = i - i mod p + p - n" by (simp add: t_def)
  have "(- n) div p = - (i div p + 1)"
    by (rule int_div_pos_eq [OF e]) (use assms r t in simp_all)
  then show ?thesis by simp
qed

lemma ceil_div_eq: "ceil_div n p = - ((- n) div p)"
  by (simp add: ceil_div_def ceiling_divide_eq_div)

subsection \<open>The loop of the paged write\<close>

lemma paged_write_loop_step:
  "i < n_bytes \<Longrightarrow> \<not> (mem_paged m \<and> page_size = 0) \<Longrightarrow>
   paged_write_loop req delay m page_size n_bytes i s =
     paged_write_loop req delay m page_size n_bytes (i + write_chunk m page_size n_bytes i s)
       (write_step req delay m page_size n_bytes i s)"
  by (subst paged_write_loop.simps) (simp only: if_True if_False)

lemma paged_write_loop_exit:
  "\<not> i < n_bytes \<Longrightarrow> paged_write_loop req delay m page_size n_bytes i s = Some s"
  by (subst paged_write_loop.simps) (simp only: if_False)

lemma write_step_fields [simp]:
  "chunk_size (write_step req delay m page_size n_bytes i s) = chunk_size s"
  "sck_period (write_step req delay m page_size n_bytes i s) = sck_period s"
  "adapter (write_step req delay m page_size n_bytes i s) = adapter s"
  by (simp_all add: write_step_def Let_def)

lemma write_step_trace:
  "trace (write_step req delay m page_size n_bytes i s) =
     trace s @
     Out req delay i (take (nat (write_chunk m page_size n_bytes i s)) (drop (nat i) (mem_buf m)))
       (write_chunk m page_size n_bytes i s)
       (USB_TIMEOUT + c_div (write_chunk m page_size n_bytes i s * (32 * sck_period s + delay)) 1000)
       (fst (adapter s (length (trace s)) req delay i (write_chunk m page_size n_bytes i s)))
     # (if mem_paged m \<and> ((i + write_chunk m page_size n_bytes i s) mod page_size = 0
                          \<or> i + write_chunk m page_size n_bytes i s = n_bytes)
        then [WritePage i] else [])"
  by (simp add: write_step_def Let_def usb_out_trace)

lemma write_step_total_len:
  "total_len (trace (write_step req delay m page_size n_bytes i s)) =
     total_len (trace s) + write_chunk m page_size n_bytes i s"
  by (simp add: write_step_trace)

lemma write_step_total_moved:
  "complete_adapter s \<Longrightarrow>
   total_moved (trace (write_step req delay m page_size n_bytes i s)) =
     total_moved (trace s) + write_chunk m page_size n_bytes i s"
  by (simp add: write_step_trace complete_adapter_def)

lemma write_step_commits:
  "commit_count (trace (write_step req delay m page_size n_bytes i s)) =
     commit_count (trace s) +
     (if mem_paged m \<and> ((i + write_chunk m page_size n_bytes i s) mod page_size = 0
                          \<or> i + write_chunk m page_size n_bytes i s = n_bytes)
      then 1 else 0)"
  by (simp add: write_step_trace)

lemma write_chunk_bounds:
  "0 < chunk_size s \<Longrightarrow> (mem_paged m \<longrightarrow> 0 < page_size) \<Longrightarrow> i < n_bytes \<Longrightarrow>
   0 < write_chunk m page_size n_bytes i s \<and> i + write_chunk m page_size n_bytes i s \<le> n_bytes"
  by (simp add: write_chunk_def Let_def)

lemma complete_adapter_write_step [simp]:
  "complete_adapter (write_step req delay m page_size n_bytes i s) = complete_adapter s"
  by (simp add: complete_adapter_def)

lemma paged_write_loop_total:
  "0 < chunk_size s \<Longrightarrow> (mem_paged m \<longrightarrow> 0 < page_size) \<Longrightarrow> i \<le> n_bytes \<Longrightarrow>
   \<exists>s'. paged_write_loop req delay m page_size n_bytes i s = Some s' \<and>
        total_len (trace s') = total_len (trace s) + (n_bytes - i) \<and>
        (complete_adapter s \<longrightarrow> total_moved (trace s') = total_moved (trace s) + (n_bytes - i))"
proof (induction "nat (n_bytes - i)" arbitrary: i s rule: less_induct)
  case less
  show ?case
  proof (cases "i < n_bytes")
    case False
    with less.prems show ?thesis by (simp add: paged_write_loop_exit)
  next
    case True
    let ?c = "write_chunk m page_size n_bytes i s"
    let ?s = "write_step req delay m page_size n_bytes i s"
    from write_chunk_bounds [OF less.prems(1) less.prems(2) True]
    have c: "0 < ?c" "i + ?c \<le> n_bytes" by simp_all
    have np: "\<not> (mem_paged m \<and> page_size = 0)" using less.prems(2) by auto
    have "\<exists>s'. paged_write_loop req delay m page_size n_bytes (i + ?c) ?s = Some s' \<and>
        total_len (trace s') = total_len (trace ?s) + (n_bytes - (i + ?c)) \<and>
        (complete_adapter ?s \<longrightarrow>
           total_moved (trace s') = total_moved (trace ?s) + (n_bytes - (i + ?c)))"
    proof (rule less.hyps)
      show "nat (n_bytes - (i + ?c)) < nat (n_bytes - i)" using c True by simp
      show "0 < chunk_size ?s" using less.prems(1) by simp
      show "mem_paged m \<longrightarrow> 0 < page_size" by (rule less.prems(2))
      show "i + ?c \<le> n_bytes" by (rule c(2))
    qed
    then obtain s' where s': "paged_write_loop req delay m page_size n_bytes (i + ?c) ?s = Some s'"
      "total_len (trace s') = total_len (trace ?s) + (n_bytes - (i + ?c))"
      "complete_adapter ?s \<longrightarrow>
         total_moved (trace s') = total_moved (trace ?s) + (n_bytes - (i + ?c))"
      by blast
    show ?thesis
      using s' by (simp add: paged_write_loop_step [OF True np] write_step_total_len write_step_total_moved)
  qed
qed

text \<open>With the chunk dividing the page: the commits from offset \<open>i\<close> on.\<close>

lemma write_chunk_paged:
  "mem_paged m \<Longrightarrow> i < n_bytes \<Longrightarrow>
   write_chunk m page_size n_bytes i s =
     (if min (chunk_size s) page_size > n_bytes - i then n_bytes - i
      else min (chunk_size s) page_size)"
  by (simp add: write_chunk_def Let_def min_def)

lemma paged_write_loop_commits:
  assumes pg: "mem_paged m" and p: "0 < page_size"
  shows "0 < chunk_size s \<Longrightarrow> min (chunk_size s) page_size dvd page_size \<Longrightarrow>
    min (chunk_size s) page_size dvd i \<Longrightarrow> 0 \<le> i \<Longrightarrow> i \<le> n_bytes \<Longrightarrow>
    \<exists>s'. paged_write_loop req delay m page_size n_bytes i s = Some s' \<and>
      int (commit_count (trace s')) = int (commit_count (trace s)) +
        (if i < n_bytes then - ((- n_bytes) div page_size) - i div page_size else 0)"
proof (induction "nat (n_bytes - i)" arbitrary: i s rule: less_induct)
  case less
  show ?case
  proof (cases "i < n_bytes")
    case False
    then show ?thesis by (simp add: paged_write_loop_exit)
  next
    case True
    let ?k = "min (chunk_size s) page_size"
    let ?c = "write_chunk m page_size n_bytes i s"
    let ?s = "write_step req delay m page_size n_bytes i s"
    have k: "0 < ?k" using less.prems(1) p by simp
    have room: "i mod page_size + ?k \<le> page_size"
      by (rule mod_room [OF k less.prems(2) less.prems(3) p])
    have cb: "0 < ?c" "i + ?c \<le> n_bytes"
      using write_chunk_bounds [of s m page_size i n_bytes] less.prems(1) p True by simp_all
    have np: "\<not> (mem_paged m \<and> page_size = 0)" using p by simp
    have step: "paged_write_loop req delay m page_size n_bytes i s =
        paged_write_loop req delay m page_size n_bytes (i + ?c) ?s"
      by (rule paged_write_loop_step [OF True np])
    show ?thesis
    proof (cases "i + ?c = n_bytes")
      case last: True
      have "n_bytes \<le> i + ?k" using last True by (simp add: write_chunk_paged [OF pg True] split: if_splits)
      from ceil_last [OF p k room True this]
      have ce: "- ((- n_bytes) div page_size) = i div page_size + 1" .
      have "paged_write_loop req delay m page_size n_bytes (i + ?c) ?s = Some ?s"
        using last by (simp add: paged_write_loop_exit)
      then show ?thesis
        using True last pg ce by (simp add: step write_step_commits)
    next
      case more: False
      then have lt: "i + ?c < n_bytes" using cb by simp
      have ck: "?c = ?k" using more True by (simp add: write_chunk_paged [OF pg True] split: if_splits)
      have "\<exists>s'. paged_write_loop req delay m page_size n_bytes (i + ?c) ?s = Some s' \<and>
          int (commit_count (trace s')) = int (commit_count (trace ?s)) +
            (if i + ?c < n_bytes then - ((- n_bytes) div page_size) - (i + ?c) div page_size else 0)"
      proof (rule less.hyps)
        show "nat (n_bytes - (i + ?c)) < nat (n_bytes - i)" using cb True by simp
        show "0 < chunk_size ?s" using less.prems(1) by simp
        show "min (chunk_size ?s) page_size dvd page_size" using less.prems(2) by simp
        show "min (chunk_size ?s) page_size dvd i + ?c" using less.prems(3) by (simp add: ck)
        show "0 \<le> i + ?c" using less.prems(4) cb by simp
        show "i + ?c \<le> n_bytes" by (rule cb(2))
      qed
      then obtain s' where s': "paged_write_loop req delay m page_size n_bytes (i + ?c) ?s = Some s'"
        "int (commit_count (trace s')) = int (commit_count (trace ?s)) +
            (- ((- n_bytes) div page_size) - (i + ?c) div page_size)"
        using lt by auto
      have ds: "(i + ?c) div page_size = i div page_size + (if (i + ?c) mod page_size = 0 then 1 else 0)"
        unfolding ck by (rule div_step [OF p k room])
      show ?thesis
        using True more pg s' ds by (simp add: step write_step_commits)
    qed
  qed
qed

lemma paged_write_loop_no_commits:
  "\<not> mem_paged m \<Longrightarrow> 0 < chunk_size s \<Longrightarrow> i \<le> n_bytes \<Longrightarrow>
   \<exists>s'. paged_write_loop req delay m page_size n_bytes i s = Some s' \<and>
        commits (trace s') = commits (trace s)"
proof (induction "nat (n_bytes - i)" arbitrary: i s rule: less_induct)
  case less
  show ?case
  proof (cases "i < n_bytes")
    case False
    then show ?thesis by (simp add: paged_write_loop_exit)
  next
    case True
    let ?c = "write_chunk m page_size n_bytes i s"
    let ?s = "write_step req delay m page_size n_bytes i s"
    have cb: "0 < ?c" "i + ?c \<le> n_bytes"
      using write_chunk_bounds [of s m page_size i n_bytes] less.prems True by simp_all
    have np: "\<not> (mem_paged m \<and> page_size = 0)" using less.prems(1) by simp
    have "\<exists>s'. paged_write_loop req delay m page_size n_bytes (i + ?c) ?s = Some s' \<and>
        commits (trace s') = commits (trace ?s)"
    proof (rule less.hyps)
      show "nat (n_bytes - (i + ?c)) < nat (n_bytes - i)" using cb True by simp
      show "\<not> mem_paged m" by (rule less.prems(1))
      show "0 < chunk_size ?s" using less.prems(2) by simp
      show "i + ?c \<le> n_bytes" by (rule cb(2))
    qed
    then show ?thesis
      using less.prems(1) by (simp add: paged_write_loop_step [OF True np] write_step_trace)
  qed
qed

subsection \<open>The loop of the paged read\<close>

lemma paged_load_loop_step:
  "i < n_bytes \<Longrightarrow>
   paged_load_loop req n_bytes i m s =
     paged_load_loop req n_bytes (i + load_chunk n_bytes i s)
       (fst (load_step req n_bytes i m s)) (snd (load_step req n_bytes i m s))"
  by (subst paged_load_loop.simps) (simp only: if_True)

lemma paged_load_loop_exit:
  "\<not> i < n_bytes \<Longrightarrow> paged_load_loop req n_bytes i m s = Some (m, s)"
  by (subst paged_load_loop.simps) (simp only: if_False)

lemma load_step_fields [simp]:
  "chunk_size (snd (load_step req n_bytes i m s)) = chunk_size s"
  "sck_period (snd (load_step req n_bytes i m s)) = sck_period s"
  "adapter (snd (load_step req n_bytes i m s)) = adapter s"
  by (simp_all add: load_step_def Let_def)

lemma load_step_trace:
  "trace (snd (load_step req n_bytes i m s)) =
     trace s @
     [In req 0 i (load_chunk n_bytes i s)
        (USB_TIMEOUT + c_div (load_chunk n_bytes i s * (32 * sck_period s)) 1000)
        (fst (adapter s (length (trace s)) req 0 i (load_chunk n_bytes i s)))]"
  by (simp add: load_step_def Let_def usb_in_trace)

lemma complete_adapter_load_step [simp]:
  "complete_adapter (snd (load_step req n_bytes i m s)) = complete_adapter s"
  by (simp add: complete_adapter_def)

lemma load_chunk_bounds:
  "0 < chunk_size s \<Longrightarrow> i < n_bytes \<Longrightarrow>
   0 < load_chunk n_bytes i s \<and> i + load_chunk n_bytes i s \<le> n_bytes"
  by (simp add: load_chunk_def Let_def)

lemma paged_load_loop_total:
  "0 < chunk_size s \<Longrightarrow> i \<le> n_bytes \<Longrightarrow>
   \<exists>m' s'. paged_load_loop req n_bytes i m s = Some (m', s') \<and>
        total_len (trace s') = total_len (trace s) + (n_bytes - i) \<and>
        (complete_adapter s \<longrightarrow> total_moved (trace s') = total_moved (trace s) + (n_bytes - i))"
proof (induction "nat (n_bytes - i)" arbitrary: i m s rule: less_induct)
  case less
  show ?case
  proof (cases "i < n_bytes")
    case False
    with less.prems show ?thesis by (simp add: paged_load_loop_exit)
  next
    case True
    let ?c = "load_chunk n_bytes i s"
    let ?m = "fst (load_step req n_bytes i m s)"
    let ?s = "snd (load_step req n_bytes i m s)"
    from load_chunk_bounds [OF less.prems(1) True]
    have c: "0 < ?c" "i + ?c \<le> n_bytes" by simp_all
    have "\<exists>m' s'. paged_load_loop req n_bytes (i + ?c) ?m ?s = Some (m', s') \<and>
        total_len (trace s') = total_len (trace ?s) + (n_bytes - (i + ?c)) \<and>
        (complete_adapter ?s \<longrightarrow>
           total_moved (trace s') = total_moved (trace ?s) + (n_bytes - (i + ?c)))"
    proof (rule less.hyps)
      show "nat (n_bytes - (i + ?c)) < nat (n_bytes - i)" using c True by simp
      show "0 < chunk_size ?s" using less.prems(1) by simp
      show "i + ?c \<le> n_bytes" by (rule c(2))
    qed
    then obtain m' s' where s': "paged_load_loop req n_bytes (i + ?c) ?m ?s = Some (m', s')"
      "total_len (trace s') = total_len (trace ?s) + (n_bytes - (i + ?c))"
      "complete_adapter ?s \<longrightarrow>
         total_moved (trace s') = total_moved (trace ?s) + (n_bytes - (i + ?c))"
      by blast
    show ?thesis
      using s' by (simp add: paged_load_loop_step [OF True] load_step_trace complete_adapter_def)
  qed
qed

lemma paged_write_scenario:
  assumes "mem_paged m" and "chunk_size s = 128"
  shows "\<exists>s'. paged_write_loop req delay m 64 300 0 s = Some s' \<and>
     chunks (trace s') = chunks (trace s) @ [(0, 64), (64, 64), (128, 64), (192, 64), (256, 44)] \<and>
     commits (trace s') = commits (trace s) @ [0, 64, 128, 192, 256]"
proof -
  have c: "write_chunk m 64 300 i t = (if 236 < i then 300 - i else 64)"
    if "chunk_size t = 128" for i t
    using that assms(1) by (simp add: write_chunk_def Let_def)
  show ?thesis
    using assms by (simp add: paged_write_loop.simps c write_step_trace)
qed

subsection \<open>Paged read and write: the claims\<close>

text \<open>
  C9. For every \<open>n_bytes \<ge> 0\<close>, in a session whose chunk size is positive (and with a
  positive page size where the memory is paged), the paged read and the paged write both
  return \<open>n_bytes\<close>, and the lengths of their chunks add up to \<open>n_bytes\<close> exactly;
  so do the bytes moved when the adapter completes every exchange. With \<open>n_bytes = 0\<close>
  the loops are not entered: both operations return 0, the read leaves memory and session
  as they are and the write adds no data exchange.
\<close>

theorem C9_total_bytes:
  assumes "0 \<le> n_bytes" and "0 < chunk_size s" and "mem_paged m \<longrightarrow> 0 < page_size"
  shows "(\<exists>m' s'. usbtiny_paged_load m page_size n_bytes s = Some (n_bytes, m', s')
            \<and> total_len (trace s') = total_len (trace s) + n_bytes
            \<and> (complete_adapter s \<longrightarrow> total_moved (trace s') = total_moved (trace s) + n_bytes))
       \<and> (\<exists>s'. usbtiny_paged_write m page_size n_bytes s = Some (n_bytes, s')
            \<and> total_len (trace s') = total_len (trace s) + n_bytes
            \<and> (complete_adapter s \<longrightarrow> total_moved (trace s') = total_moved (trace s) + n_bytes))
       \<and> usbtiny_paged_load m page_size 0 s = Some (0, m, s)
       \<and> (\<exists>s'. usbtiny_paged_write m page_size 0 s = Some (0, s')
            \<and> chunks (trace s') = chunks (trace s))"
proof -
  let ?rq = "if mem_desc m = ''flash'' then USBTINY_FLASH_READ else USBTINY_EEPROM_READ"
  let ?wq = "if mem_desc m = ''flash'' then USBTINY_FLASH_WRITE else USBTINY_EEPROM_WRITE"
  let ?s0 = "if \<not> mem_paged m
             then usb_control USBTINY_POLL_BYTES
               (push_bit 8 (uint (mem_readback1 m)) OR uint (mem_readback0 m)) 0 s
             else s"
  let ?d = "if \<not> mem_paged m then mem_max_write_delay m else 0"
  have rd: "\<exists>m' s'. usbtiny_paged_load m page_size n_bytes s = Some (n_bytes, m', s')
            \<and> total_len (trace s') = total_len (trace s) + n_bytes
            \<and> (complete_adapter s \<longrightarrow> total_moved (trace s') = total_moved (trace s) + n_bytes)"
    using paged_load_loop_total [OF assms(2), of 0 n_bytes ?rq m] assms(1)
    by (auto simp: usbtiny_paged_load_def Let_def)
  have s0: "0 < chunk_size ?s0" "total_len (trace ?s0) = total_len (trace s)"
    "total_moved (trace ?s0) = total_moved (trace s)" "complete_adapter ?s0 = complete_adapter s"
    using assms(2) by (simp_all add: complete_adapter_def)
  have wr: "\<exists>s'. usbtiny_paged_write m page_size n_bytes s = Some (n_bytes, s')
            \<and> total_len (trace s') = total_len (trace s) + n_bytes
            \<and> (complete_adapter s \<longrightarrow> total_moved (trace s') = total_moved (trace s) + n_bytes)"
    using paged_write_loop_total [OF s0(1) assms(3), of 0 n_bytes ?wq ?d] assms(1)
    unfolding s0 by (auto simp: usbtiny_paged_write_def Let_def)
  have r0: "usbtiny_paged_load m page_size 0 s = Some (0, m, s)"
    by (simp add: usbtiny_paged_load_def Let_def paged_load_loop_exit)
  have w0: "\<exists>s'. usbtiny_paged_write m page_size 0 s = Some (0, s')
            \<and> chunks (trace s') = chunks (trace s)"
    by (simp add: usbtiny_paged_write_def Let_def paged_write_loop_exit)
  from rd wr r0 w0 show ?thesis by blast
qed

theorem C9_total_bytes_witness:
  "(0::int) \<le> 300 \<and> 0 < chunk_size (session ideal_adapter 10 128)
   \<and> mem_paged (flash_mem 300) \<and> (0::int) < 64
   \<and> (\<exists>m' s'. usbtiny_paged_load (flash_mem 300) 64 300 (session ideal_adapter 10 128)
                 = Some (300, m', s')
         \<and> total_len (trace s') = 300 \<and> total_moved (trace s') = 300)
   \<and> (\<exists>s'. usbtiny_paged_write (flash_mem 300) 64 300 (session ideal_adapter 10 128)
              = Some (300, s')
         \<and> total_len (trace s') = 300 \<and> total_moved (trace s') = 300)"
  using C9_total_bytes [of 300 "session ideal_adapter 10 128" "flash_mem 300" 64]
  by simp

text \<open>
  C4, as amended. In a paged write with \<open>n_bytes \<ge> 0\<close> and a positive chunk size, the
  page commit is invoked exactly \<open>\<lceil>n_bytes / page_size\<rceil>\<close> times for a paged memory
  whose page size is positive and is either at most the chunk size or a multiple of it, and
  never for a memory that is not paged. Writing 300 bytes to a paged memory with page size 64
  at chunk size 128 gives chunks at offsets 0, 64, 128, 192, 256 of sizes 64, 64, 64, 64, 44
  and commits at 0, 64, 128, 192, 256.
\<close>

theorem C4_commits:
  assumes "0 \<le> n_bytes" and "0 < chunk_size s"
  shows "(mem_paged m \<and> 0 < page_size
            \<and> (page_size \<le> chunk_size s \<or> chunk_size s dvd page_size) \<longrightarrow>
          (\<exists>s'. usbtiny_paged_write m page_size n_bytes s = Some (n_bytes, s')
             \<and> int (commit_count (trace s'))
                 = int (commit_count (trace s)) + ceil_div n_bytes page_size))
       \<and> (\<not> mem_paged m \<longrightarrow>
          (\<exists>s'. usbtiny_paged_write m page_size n_bytes s = Some (n_bytes, s')
             \<and> commit_count (trace s') = commit_count (trace s)))
       \<and> (mem_paged m \<and> chunk_size s = 128 \<longrightarrow>
          (\<exists>s'. usbtiny_paged_write m 64 300 s = Some (300, s')
             \<and> chunks (trace s')
                 = chunks (trace s) @ [(0, 64), (64, 64), (128, 64), (192, 64), (256, 44)]
             \<and> commits (trace s') = commits (trace s) @ [0, 64, 128, 192, 256]))"
proof (intro conjI impI)
  let ?wq = "if mem_desc m = ''flash'' then USBTINY_FLASH_WRITE else USBTINY_EEPROM_WRITE"
  {
    assume a: "mem_paged m \<and> 0 < page_size
       \<and> (page_size \<le> chunk_size s \<or> chunk_size s dvd page_size)"
    then have k: "min (chunk_size s) page_size dvd page_size"
      by (auto simp: min_def)
    have "\<exists>s'. paged_write_loop ?wq 0 m page_size n_bytes 0 s = Some s' \<and>
      int (commit_count (trace s')) = int (commit_count (trace s)) +
        (if 0 < n_bytes then - ((- n_bytes) div page_size) - 0 div page_size else 0)"
      using a assms by (intro paged_write_loop_commits k) simp_all
    moreover have "n_bytes = 0 \<Longrightarrow> ceil_div n_bytes page_size = 0"
      by (simp add: ceil_div_eq)
    ultimately show "\<exists>s'. usbtiny_paged_write m page_size n_bytes s = Some (n_bytes, s')
             \<and> int (commit_count (trace s'))
                 = int (commit_count (trace s)) + ceil_div n_bytes page_size"
      using a assms(1) by (auto simp: usbtiny_paged_write_def Let_def ceil_div_eq)
  }
  {
    assume a: "\<not> mem_paged m"
    let ?s0 = "usb_control USBTINY_POLL_BYTES
               (push_bit 8 (uint (mem_readback1 m)) OR uint (mem_readback0 m)) 0 s"
    have "\<exists>s'. paged_write_loop ?wq (mem_max_write_delay m) m page_size n_bytes 0 ?s0 = Some s' \<and>
        commits (trace s') = commits (trace ?s0)"
      using a assms by (intro paged_write_loop_no_commits) simp_all
    then show "\<exists>s'. usbtiny_paged_write m page_size n_bytes s = Some (n_bytes, s')
             \<and> commit_count (trace s') = commit_count (trace s)"
      using a by (auto simp: usbtiny_paged_write_def Let_def commit_count_def)
  }
  {
    assume a: "mem_paged m \<and> chunk_size s = 128"
    then show "\<exists>s'. usbtiny_paged_write m 64 300 s = Some (300, s')
             \<and> chunks (trace s')
                 = chunks (trace s) @ [(0, 64), (64, 64), (128, 64), (192, 64), (256, 44)]
             \<and> commits (trace s') = commits (trace s) @ [0, 64, 128, 192, 256]"
      using paged_write_scenario [of m s ?wq 0]
      by (auto simp: usbtiny_paged_write_def Let_def)
  }
qed

lemma ceil_div_300_64: "ceil_div 300 64 = 5"
  by (simp add: ceil_div_eq)

theorem C4_commits_witness:
  "(0::int) \<le> 300 \<and> 0 < chunk_size (session ideal_adapter 10 128)
   \<and> mem_paged (flash_mem 300) \<and> (0::int) < 64
   \<and> (64 \<le> chunk_size (session ideal_adapter 10 128)
        \<or> chunk_size (session ideal_adapter 10 128) dvd 64)
   \<and> \<not> mem_paged (eeprom_mem 300)
   \<and> chunk_size (session ideal_adapter 10 128) = 128
   \<and> (\<exists>s'. usbtiny_paged_write (flash_mem 300) 64 300 (session ideal_adapter 10 128)
              = Some (300, s')
         \<and> commit_count (trace s') = 5
         \<and> chunks (trace s') = [(0, 64), (64, 64), (128, 64), (192, 64), (256, 44)]
         \<and> commits (trace s') = [0, 64, 128, 192, 256])
   \<and> (\<exists>s'. usbtiny_paged_write (eeprom_mem 300) 64 300 (session ideal_adapter 10 128)
              = Some (300, s')
         \<and> commit_count (trace s') = 0)"
  using C4_commits [of 300 "session ideal_adapter 10 128" "flash_mem 300" 64]
    C4_commits [of 300 "session ideal_adapter 10 128" "eeprom_mem 300" 64]
  by (auto simp: ceil_div_300_64)

text \<open>
  C4 as first stated does not hold: in its scenario the last chunk has 44 bytes, not 12
  (the five sizes add up to 300); and with page size 12 at chunk size 8, a write of 24 bytes
  commits once, at offset 16, while \<open>\<lceil>24 / 12\<rceil> = 2\<close>.
\<close>

theorem C4_counterexample:
  "usbtiny_paged_write (flash_mem 300) 64 300 (session ideal_adapter 10 128) \<noteq> None
   \<and> fst (the (usbtiny_paged_write (flash_mem 300) 64 300 (session ideal_adapter 10 128))) = 300
   \<and> chunks (trace (snd (the
        (usbtiny_paged_write (flash_mem 300) 64 300 (session ideal_adapter 10 128)))))
       \<noteq> [(0, 64), (64, 64), (128, 64), (192, 64), (256, 12)]
   \<and> usbtiny_paged_write (flash_mem 24) 12 24 (session ideal_adapter 200 8) \<noteq> None
   \<and> int (commit_count (trace (snd (the
        (usbtiny_paged_write (flash_mem 24) 12 24 (session ideal_adapter 200 8))))))
       \<noteq> ceil_div 24 12"
proof -
  have a: "\<exists>s'. usbtiny_paged_write (flash_mem 300) 64 300 (session ideal_adapter 10 128)
              = Some (300, s')
         \<and> chunks (trace s') = [(0, 64), (64, 64), (128, 64), (192, 64), (256, 44)]"
    using paged_write_scenario [of "flash_mem 300" "session ideal_adapter 10 128"
        USBTINY_FLASH_WRITE 0]
    by (auto simp: usbtiny_paged_write_def Let_def)
  have c: "write_chunk (flash_mem 24) 12 24 i t = (if 16 < i then 24 - i else 8)"
    if "chunk_size t = 8" for i t
    using that by (simp add: write_chunk_def Let_def)
  have b: "\<exists>s'. usbtiny_paged_write (flash_mem 24) 12 24 (session ideal_adapter 200 8)
              = Some (24, s') \<and> commits (trace s') = [16]"
    by (simp add: usbtiny_paged_write_def Let_def paged_write_loop.simps c write_step_trace)
  have "ceil_div 24 12 = 2" by (simp add: ceil_div_eq)
  with a b show ?thesis by (auto simp: commit_count_def)
qed

text \<open>
  C1. The claim is that a paged read fails at once, with the failure of the channel, when
  a chunk transfer moves fewer bytes than asked for. The loop of \<open>usbtiny_paged_load\<close>
  drops the status of \<open>usb_in\<close>: reading 16 bytes at chunk size 8 from an adapter whose
  first exchange moves 5 bytes of 8, \<open>usb_in\<close> reports \<open>-1\<close> for the first chunk,
  the second chunk is still asked for and the operation returns 16.
\<close>

theorem C1_short_transfer_ignored:
  "fst (fst (usb_in USBTINY_FLASH_READ 0 0 8 (32 * 200) (session short_adapter 200 8))) = - 1
   \<and> usbtiny_paged_load (flash_mem 16) 64 16 (session short_adapter 200 8) \<noteq> None
   \<and> fst (the (usbtiny_paged_load (flash_mem 16) 64 16 (session short_adapter 200 8))) = 16
   \<and> chunks (trace (snd (snd (the
        (usbtiny_paged_load (flash_mem 16) 64 16 (session short_adapter 200 8))))))
       = [(0, 8), (8, 8)]
   \<and> map xfer_moved (trace (snd (snd (the
        (usbtiny_paged_load (flash_mem 16) 64 16 (session short_adapter 200 8))))))
       = [5, 8]"
proof -
  have c: "load_chunk 16 i t = (if 8 < i then 16 - i else 8)" if "chunk_size t = 8" for i t
    using that by (simp add: load_chunk_def Let_def)
  let ?l0 = "load_step USBTINY_FLASH_READ 16 0 (flash_mem 16) (session short_adapter 200 8)"
  let ?l1 = "load_step USBTINY_FLASH_READ 16 8 (fst ?l0) (snd ?l0)"
  have e: "paged_load_loop USBTINY_FLASH_READ 16 0 (flash_mem 16)
             (session short_adapter 200 8) = Some ?l1"
    by (simp add: paged_load_loop.simps c)
  have t: "trace (snd ?l1) =
      [In USBTINY_FLASH_READ 0 0 8 (USB_TIMEOUT + c_div (8 * (32 * 200)) 1000) 5,
       In USBTINY_FLASH_READ 0 8 8 (USB_TIMEOUT + c_div (8 * (32 * 200)) 1000) 8]"
    by (simp add: c load_step_trace short_adapter_def)
  have u: "fst (fst (usb_in USBTINY_FLASH_READ 0 0 8 (32 * 200)
             (session short_adapter 200 8))) = - 1"
    by (simp add: usb_in_status short_adapter_def)
  show ?thesis
    using u by (simp add: usbtiny_paged_load_def Let_def e t split: prod.split)
qed

subsection \<open>The command relay\<close>

lemma usbtiny_cmd_fields [simp]:
  "cache_mem (snd (usbtiny_cmd z cmd res s)) = None"
  "cache_disable (snd (usbtiny_cmd z cmd res s)) = cache_disable s"
  "chunk_size (snd (usbtiny_cmd z cmd res s)) = chunk_size s"
  "sck_period (snd (usbtiny_cmd z cmd res s)) = sck_period s"
  "adapter (snd (usbtiny_cmd z cmd res s)) = adapter s"
  by (simp_all add: usbtiny_cmd_def Let_def)

lemma usbtiny_cmd_status:
  "fst (fst (usbtiny_cmd z cmd res s)) =
     (if xfer_moved (last (trace (snd (usbtiny_cmd z cmd res s)))) = z
         \<and> b2 (snd (fst (usbtiny_cmd z cmd res s))) = b1 cmd
      then 1 else 0)"
  by (simp add: usbtiny_cmd_def Let_def usb_in_status usb_in_trace)

lemma usbtiny_avr_op_relay:
  "part_op p op = None \<Longrightarrow> fst (fst (usbtiny_avr_op sb z p op res s)) = - 1"
  "part_op p op = Some t \<Longrightarrow>
     fst (fst (usbtiny_avr_op sb z p op res s)) =
       (if xfer_moved (last (trace (snd (usbtiny_avr_op sb z p op res s)))) = z
           \<and> b2 (snd (fst (usbtiny_avr_op sb z p op res s))) = b1 (sb t (Buf4 0 0 0 0))
        then 1 else 0)"
  by (simp_all add: usbtiny_avr_op_def Let_def usbtiny_cmd_status [symmetric])

lemma usbtiny_avr_op_fields [simp]:
  "chunk_size (snd (usbtiny_avr_op sb z p op res s)) = chunk_size s"
  "sck_period (snd (usbtiny_avr_op sb z p op res s)) = sck_period s"
  by (simp_all add: usbtiny_avr_op_def Let_def split: option.split)

text \<open>
  Whatever the adapter answers, \<open>usbtiny_initialize\<close> leaves a chunk size between 8 and
  128: after it the paged loops are entered with a positive chunk size.
\<close>

lemma initialize_chunk_size:
  "8 \<le> chunk_size (snd (usbtiny_initialize sb z pgm p res s))"
  "chunk_size (snd (usbtiny_initialize sb z pgm p res s)) \<le> 128"
  by (simp_all add: usbtiny_initialize_def Let_def usbtiny_set_sck_period_def
      set_chunk_size_closed)

text \<open>
  C2. The claim is that the relay succeeds exactly when the exchange moves 4 bytes and the
  third byte of the response is the second byte of the command. \<open>usbtiny_cmd\<close> asks for
  \<open>sizeof(res)\<close> bytes, the size of a pointer: compiled with 8-byte pointers, an
  exchange that moves exactly 4 bytes with the right echo makes the relay return 0, where
  with 4-byte pointers the same exchange makes it return 1.
\<close>

theorem C2_relay_on_64_bit:
  "part_op enable_part AVR_OP_PGM_ENABLE = Some (Buf4 172 83 0 0)
   \<and> xfer_moved (last (trace (snd (usbtiny_avr_op set_all_bits 8 enable_part AVR_OP_PGM_ENABLE
        (Buf4 0 0 0 0) (session echo_adapter 10 128))))) = 4
   \<and> b2 (snd (fst (usbtiny_avr_op set_all_bits 8 enable_part AVR_OP_PGM_ENABLE
        (Buf4 0 0 0 0) (session echo_adapter 10 128))))
       = b1 (set_all_bits (Buf4 172 83 0 0) (Buf4 0 0 0 0))
   \<and> fst (fst (usbtiny_avr_op set_all_bits 8 enable_part AVR_OP_PGM_ENABLE
        (Buf4 0 0 0 0) (session echo_adapter 10 128))) = 0
   \<and> fst (fst (usbtiny_avr_op set_all_bits 4 enable_part AVR_OP_PGM_ENABLE
        (Buf4 0 0 0 0) (session echo_adapter 10 128))) = 1"
  by (simp add: usbtiny_avr_op_def usbtiny_cmd_def usb_in_def Let_def enable_part_def
      set_all_bits_def echo_adapter_def store_buf4_def list_of_buf4_def)

text \<open>
  C10. If the part has no template for the programming-enable operation,
  \<open>usbtiny_avr_op\<close> returns \<open>-1\<close>; \<open>usbtiny_initialize\<close> takes that for
  success and returns 0, and the only message it has sent to the adapter is the power-up
  notification: no SPI command.
\<close>

theorem C10_enable_without_template:
  assumes "part_op p AVR_OP_PGM_ENABLE = None"
  shows "fst (fst (usbtiny_avr_op sb z p AVR_OP_PGM_ENABLE res s)) = - 1
       \<and> fst (usbtiny_initialize sb z pgm p res s) = 0
       \<and> spi_count (trace (snd (usbtiny_initialize sb z pgm p res s))) = spi_count (trace s)
       \<and> trace (snd (usbtiny_initialize sb z pgm p res s))
           = trace s @ [Control USBTINY_POWERUP
                          (sck_period (snd (usbtiny_initialize sb z pgm p res s))) RESET_LOW]"
  using assms
  by (simp add: usbtiny_initialize_def usbtiny_avr_op_def usbtiny_set_sck_period_def
      usbtiny_set_chunk_size_def Let_def)

theorem C10_enable_without_template_witness:
  "part_op bare_part AVR_OP_PGM_ENABLE = None
   \<and> fst (fst (usbtiny_avr_op set_all_bits 4 bare_part AVR_OP_PGM_ENABLE (Buf4 0 0 0 0)
        (driver_start ideal_adapter))) = - 1
   \<and> fst (usbtiny_initialize set_all_bits 4 default_pgm bare_part (Buf4 0 0 0 0)
        (driver_start ideal_adapter)) = 0
   \<and> spi_count (trace (snd (usbtiny_initialize set_all_bits 4 default_pgm bare_part
        (Buf4 0 0 0 0) (driver_start ideal_adapter)))) = 0
   \<and> trace (snd (usbtiny_initialize set_all_bits 4 default_pgm bare_part
        (Buf4 0 0 0 0) (driver_start ideal_adapter))) = [Control USBTINY_POWERUP 10 0]"
proof -
  have b: "part_op bare_part AVR_OP_PGM_ENABLE = None"
    by (simp add: bare_part_def)
  have p: "sck_period (snd (usbtiny_initialize set_all_bits 4 default_pgm bare_part
        (Buf4 0 0 0 0) (driver_start ideal_adapter))) = 10"
    by (simp add: usbtiny_initialize_def usbtiny_avr_op_def usbtiny_set_chunk_size_def
        Let_def b default_pgm_def SCK_DEFAULT_def)
  have t0: "trace (driver_start ideal_adapter) = []"
    by (simp add: driver_start_def)
  show ?thesis
    using C10_enable_without_template [OF b, of set_all_bits 4 "Buf4 0 0 0 0"
        "driver_start ideal_adapter" default_pgm]
    by (simp add: b p t0 RESET_LOW_def)
qed

subsection \<open>The cache\<close>

lemma read_byte_hit:
  assumes "cache_disable s \<le> 0" and "cacheable m" and "cache_holds s m addr"
  shows "usbtiny_read_byte rd m addr s
           = ((0, load_byte (cache_buf s) (addr - base_of s addr)), s)"
  using assms
  by (auto simp: usbtiny_read_byte_def cacheable_def cache_holds_def base_of_def Let_def)

lemma read_byte_miss:
  assumes "cache_disable s \<le> 0" and "cacheable m" and "\<not> cache_holds s m addr"
  shows "trace (snd (usbtiny_read_byte rd m addr s)) =
           trace s @ [In (refill_req m) 0 (base_of s addr) (refill_size s m)
              (USB_TIMEOUT + c_div (refill_size s m * (32 * sck_period s)) 1000)
              (refill_moved s m addr)]"
    and "fst (fst (usbtiny_read_byte rd m addr s))
           = (if refill_moved s m addr = refill_size s m then 0 else - 1)"
    and "cache_mem (snd (usbtiny_read_byte rd m addr s))
           = (if refill_moved s m addr = refill_size s m then Some (mem_addr m) else None)"
    and "refill_moved s m addr = refill_size s m \<Longrightarrow>
           cache_base (snd (usbtiny_read_byte rd m addr s)) = base_of s addr"
    and "cache_disable (snd (usbtiny_read_byte rd m addr s)) = cache_disable s"
    and "chunk_size (snd (usbtiny_read_byte rd m addr s)) = chunk_size s"
    and "refill_moved s m addr \<noteq> refill_size s m \<Longrightarrow>
           snd (fst (usbtiny_read_byte rd m addr s)) = None"
  using assms
  by (auto simp: usbtiny_read_byte_def cacheable_def cache_holds_def base_of_def Let_def
      refill_req_def refill_size_def refill_moved_def usb_in_trace usb_in_status)

lemma refill_req_cases [simp]:
  "refill_req m = USBTINY_FLASH_READ \<or> refill_req m = USBTINY_EEPROM_READ"
  by (cases "mem_desc m = ''flash''") (simp_all add: refill_req_def)

lemma read_byte_miss_count:
  assumes "cache_disable s \<le> 0" and "cacheable m" and "\<not> cache_holds s m addr"
  shows "read_count (trace (snd (usbtiny_read_byte rd m addr s))) = read_count (trace s) + 1"
  by (simp add: read_byte_miss(1) [OF assms])

lemma warm_fields [simp]:
  "cache_disable warm_session = 0" "cache_mem warm_session = Some 1"
  "cache_base warm_session = 0" "chunk_size warm_session = 128" "trace warm_session = []"
  by (simp_all add: warm_session_def)

lemma cacheable_samples [simp]: "cacheable (flash_mem n)" "cacheable (eeprom_mem n)"
  by (simp_all add: cacheable_def)

lemma base_5: "base_of warm_session 5 = 0"
  by (simp add: base_of_def)

text \<open>
  C3. \<open>usbtiny_cmd\<close> leaves the cache without an entry, so with the cache enabled the
  next read of a byte of flash or eeprom asks the adapter for a refill, whatever memory and
  base the cache held before the command.
\<close>

theorem C3_command_invalidates:
  assumes "cache_disable s \<le> 0" and "cacheable m"
  shows "cache_mem (snd (usbtiny_cmd z cmd res s)) = None
       \<and> read_count (trace (snd (usbtiny_read_byte rd m addr (snd (usbtiny_cmd z cmd res s)))))
           = read_count (trace (snd (usbtiny_cmd z cmd res s))) + 1"
proof -
  let ?s = "snd (usbtiny_cmd z cmd res s)"
  have "\<not> cache_holds ?s m addr" by (simp add: cache_holds_def)
  moreover have "cache_disable ?s \<le> 0" using assms(1) by simp
  ultimately show ?thesis using assms(2) by (simp add: read_byte_miss_count)
qed

theorem C3_command_invalidates_witness:
  "cache_disable warm_session \<le> 0 \<and> cacheable (flash_mem 1024)
   \<and> cache_holds warm_session (flash_mem 1024) 5
   \<and> read_count (trace (snd (usbtiny_read_byte no_default (flash_mem 1024) 5 warm_session)))
       = read_count (trace warm_session)
   \<and> read_count (trace (snd (usbtiny_read_byte no_default (flash_mem 1024) 5
        (snd (usbtiny_cmd 4 (Buf4 172 83 0 0) (Buf4 0 0 0 0) warm_session)))))
       = read_count (trace (snd (usbtiny_cmd 4 (Buf4 172 83 0 0) (Buf4 0 0 0 0) warm_session))) + 1"
proof -
  have h: "cache_holds warm_session (flash_mem 1024) 5"
    by (simp add: cache_holds_def base_5)
  have "usbtiny_read_byte no_default (flash_mem 1024) 5 warm_session
          = ((0, load_byte (cache_buf warm_session) (5 - base_of warm_session 5)), warm_session)"
    by (rule read_byte_hit [OF _ _ h]) simp_all
  then show ?thesis
    using h C3_command_invalidates [of warm_session "flash_mem 1024" 4 "Buf4 172 83 0 0"
        "Buf4 0 0 0 0" no_default 5]
    by simp
qed

text \<open>
  C7. With the cache enabled and a memory of a cacheable kind: when a read misses the cache
  and its refill is complete, that read and a following read at an address with the same
  base make exactly one refill exchange between them, the second read adding nothing to the
  trace; a read after them at another base, or of another memory, makes a new one.
\<close>

theorem C7_one_refill:
  assumes "cache_disable s \<le> 0" and "cacheable m" and "cacheable m3"
    and "base_of s a1 = base_of s a2"
    and "\<not> cache_holds s m a1"
    and "refill_moved s m a1 = refill_size s m"
    and "mem_addr m3 \<noteq> mem_addr m \<or> base_of s a3 \<noteq> base_of s a1"
  shows "read_count (trace (snd (usbtiny_read_byte rd m a1 s))) = read_count (trace s) + 1
       \<and> fst (fst (usbtiny_read_byte rd m a1 s)) = 0
       \<and> trace (snd (usbtiny_read_byte rd m a2 (snd (usbtiny_read_byte rd m a1 s))))
           = trace (snd (usbtiny_read_byte rd m a1 s))
       \<and> fst (fst (usbtiny_read_byte rd m a2 (snd (usbtiny_read_byte rd m a1 s)))) = 0
       \<and> read_count (trace (snd (usbtiny_read_byte rd m3 a3
            (snd (usbtiny_read_byte rd m a2 (snd (usbtiny_read_byte rd m a1 s)))))))
           = read_count (trace (snd (usbtiny_read_byte rd m a2
               (snd (usbtiny_read_byte rd m a1 s))))) + 1"
proof -
  let ?s1 = "snd (usbtiny_read_byte rd m a1 s)"
  note m1 = read_byte_miss [OF assms(1) assms(2) assms(5), of rd]
  have s1: "cache_disable ?s1 \<le> 0" "chunk_size ?s1 = chunk_size s"
    "cache_mem ?s1 = Some (mem_addr m)" "cache_base ?s1 = base_of s a1"
    using assms(1) assms(6) m1 by simp_all
  have b: "base_of ?s1 a = base_of s a" for a
    by (simp add: base_of_def s1)
  have h2: "cache_holds ?s1 m a2"
    using assms(4) by (simp add: cache_holds_def s1 b)
  have r2: "usbtiny_read_byte rd m a2 ?s1
      = ((0, load_byte (cache_buf ?s1) (a2 - base_of ?s1 a2)), ?s1)"
    by (rule read_byte_hit [OF s1(1) assms(2) h2])
  have h3: "\<not> cache_holds ?s1 m3 a3"
    using assms(7) by (auto simp: cache_holds_def s1 b)
  show ?thesis
    using assms(6) m1(2) read_byte_miss_count [OF assms(1) assms(2) assms(5), of rd]
      read_byte_miss_count [OF s1(1) assms(3) h3, of rd]
    by (simp add: r2)
qed

theorem C7_one_refill_witness:
  "cache_disable (session ideal_adapter 10 128) \<le> 0
   \<and> cacheable (flash_mem 1024) \<and> cacheable (eeprom_mem 512)
   \<and> base_of (session ideal_adapter 10 128) 5 = base_of (session ideal_adapter 10 128) 100
   \<and> \<not> cache_holds (session ideal_adapter 10 128) (flash_mem 1024) 5
   \<and> refill_moved (session ideal_adapter 10 128) (flash_mem 1024) 5
       = refill_size (session ideal_adapter 10 128) (flash_mem 1024)
   \<and> mem_addr (eeprom_mem 512) \<noteq> mem_addr (flash_mem 1024)
   \<and> read_count (trace (snd (usbtiny_read_byte no_default (flash_mem 1024) 100
        (snd (usbtiny_read_byte no_default (flash_mem 1024) 5
           (session ideal_adapter 10 128)))))) = 1
   \<and> read_count (trace (snd (usbtiny_read_byte no_default (eeprom_mem 512) 5
        (snd (usbtiny_read_byte no_default (flash_mem 1024) 100
           (snd (usbtiny_read_byte no_default (flash_mem 1024) 5
              (session ideal_adapter 10 128)))))))) = 2"
proof -
  let ?s = "session ideal_adapter 10 128"
  have b: "base_of ?s 5 = base_of ?s 100"
    by (simp add: base_of_def)
  have h: "\<not> cache_holds ?s (flash_mem 1024) 5"
    by (simp add: cache_holds_def)
  have r: "refill_moved ?s (flash_mem 1024) 5 = refill_size ?s (flash_mem 1024)"
    by (simp add: refill_moved_def ideal_adapter_def)
  have d: "mem_addr (eeprom_mem 512) \<noteq> mem_addr (flash_mem 1024)
      \<or> base_of ?s 5 \<noteq> base_of ?s 5"
    by simp
  show ?thesis
    using C7_one_refill [of ?s "flash_mem 1024" "eeprom_mem 512" 5 100 5 no_default,
        OF _ _ _ b h r d]
    by (simp add: b h r)
qed

text \<open>
  C8. When a read misses the cache and the refill transfer is not complete, the read
  returns \<open>-1\<close> without a value and the cache is left without an entry: the next read of
  a cacheable memory asks the adapter again.
\<close>

theorem C8_refill_failure:
  assumes "cache_disable s \<le> 0" and "cacheable m" and "cacheable m2"
    and "\<not> cache_holds s m addr"
    and "refill_moved s m addr \<noteq> refill_size s m"
  shows "fst (usbtiny_read_byte rd m addr s) = (- 1, None)
       \<and> cache_mem (snd (usbtiny_read_byte rd m addr s)) = None
       \<and> read_count (trace (snd (usbtiny_read_byte rd m2 addr2
            (snd (usbtiny_read_byte rd m addr s)))))
           = read_count (trace (snd (usbtiny_read_byte rd m addr s))) + 1"
proof -
  let ?s1 = "snd (usbtiny_read_byte rd m addr s)"
  note m1 = read_byte_miss [OF assms(1) assms(2) assms(4), of rd]
  have s1: "cache_disable ?s1 \<le> 0" "cache_mem ?s1 = None"
    using assms(1) assms(5) m1 by simp_all
  have h: "\<not> cache_holds ?s1 m2 addr2"
    by (simp add: cache_holds_def s1)
  have "fst (usbtiny_read_byte rd m addr s) = (- 1, None)"
    using m1(2) m1(7) assms(5) by (simp add: prod_eq_iff)
  then show ?thesis
    using s1(2) read_byte_miss_count [OF s1(1) assms(3) h, of rd] by simp
qed

theorem C8_refill_failure_witness:
  "cache_disable (session short_adapter 10 128) \<le> 0
   \<and> cacheable (flash_mem 1024)
   \<and> \<not> cache_holds (session short_adapter 10 128) (flash_mem 1024) 5
   \<and> refill_moved (session short_adapter 10 128) (flash_mem 1024) 5
       \<noteq> refill_size (session short_adapter 10 128) (flash_mem 1024)
   \<and> fst (usbtiny_read_byte no_default (flash_mem 1024) 5 (session short_adapter 10 128))
       = (- 1, None)
   \<and> cache_mem (snd (usbtiny_read_byte no_default (flash_mem 1024) 5
        (session short_adapter 10 128))) = None
   \<and> read_count (trace (snd (usbtiny_read_byte no_default (flash_mem 1024) 5
        (snd (usbtiny_read_byte no_default (flash_mem 1024) 5
           (session short_adapter 10 128)))))) = 2"
proof -
  let ?s = "session short_adapter 10 128"
  have h: "\<not> cache_holds ?s (flash_mem 1024) 5"
    by (simp add: cache_holds_def)
  have r: "refill_moved ?s (flash_mem 1024) 5 \<noteq> refill_size ?s (flash_mem 1024)"
    by (simp add: refill_moved_def refill_size_def short_adapter_def)
  have c: "read_count (trace (snd (usbtiny_read_byte no_default (flash_mem 1024) 5 ?s))) = 1"
    by (simp add: read_byte_miss_count h)
  show ?thesis
    using C8_refill_failure [of ?s "flash_mem 1024" "flash_mem 1024" 5 no_default 5,
        OF _ _ _ h r]
    by (simp add: h r c)
qed

end
